theory Spec2Isabelle
  imports Main "HOL-Library.AList"
begin

section \<open>JavaScript values\<close>

text \<open>
  The document held by a \<open>LumeDB\<close> instance is a tree of JavaScript values as
  \<open>JSON.parse\<close> builds them, together with what callers pass to \<open>set\<close> and friends.
  An object is an association list in insertion order (its keys are distinct in every
  object that the parser or an operation builds); an array is a list of slots, where
  \<open>None\<close> is a hole (a slot that holds no element, as \<open>array[7] = v\<close> leaves behind in
  a shorter array). Numbers are restricted to integers.

  Property lookup sees the own properties of a value only: array elements and
  \<open>length\<close>, the characters and \<open>length\<close> of a string, the keys of an object. Names
  inherited from the built-in prototypes (\<open>constructor\<close>, \<open>toString\<close>, \<open>__proto__\<close>, ...)
  and sharing of one object under two paths are outside the model.
\<close>

datatype jvalue =
    Undefined
  | Null
  | Bool bool
  | Num int
  | Str string
  | Arr "jvalue option list"
  | Obj "(string \<times> jvalue) list"

text \<open>
  What the source can raise. \<open>InvalidJSON\<close> is \<open>Error('Invalid JSON format')\<close> of
  \<open>validateData\<close>, \<open>NotAnArray\<close> is \<open>Error('Target is not an array')\<close> of the array
  operations, \<open>SyntaxError\<close> is what \<open>JSON.parse\<close> throws, \<open>TypeError\<close> is what the
  engine throws (all of the class body is strict mode code, so assigning a property of
  a primitive throws). \<open>Unmodelled\<close> marks the steps whose effect the value type cannot
  hold: storing into an array under a key that is not an array index (a named
  property, \<open>length\<close>, a negative or too large position).
\<close>

datatype error = InvalidJSON | NotAnArray | SyntaxError | TypeError | Unmodelled

fun truthy :: "jvalue \<Rightarrow> bool" where
  "truthy Undefined = False"
| "truthy Null = False"
| "truthy (Bool b) = b"
| "truthy (Num n) = (n \<noteq> 0)"
| "truthy (Str s) = (s \<noteq> [])"
| "truthy (Arr xs) = True"
| "truthy (Obj kvs) = True"

fun isArray :: "jvalue \<Rightarrow> bool" where
  "isArray (Arr xs) = True"
| "isArray v = False"

fun isObj :: "jvalue \<Rightarrow> bool" where
  "isObj (Obj kvs) = True"
| "isObj v = False"

subsection \<open>Array indices\<close>

definition is_digit :: "char \<Rightarrow> bool" where
  "is_digit c = (c \<in> set ''0123456789'')"

definition digit_val :: "char \<Rightarrow> nat" where
  "digit_val c = of_char c - 48"

definition dec_val :: "string \<Rightarrow> nat" where
  "dec_val s = foldl (\<lambda>a c. 10 * a + digit_val c) 0 s"

text \<open>
  A property key is an array index when it is the canonical decimal form of an
  integer below \<open>2^32 - 1\<close>.
\<close>

definition array_index :: "string \<Rightarrow> nat option" where
  "array_index k =
     (if k \<noteq> [] \<and> list_all is_digit k \<and> (k = ''0'' \<or> hd k \<noteq> CHR ''0'')
         \<and> dec_val k < 2 ^ 32 - 1
      then Some (dec_val k) else None)"

subsection \<open>Property access\<close>

fun slot :: "jvalue option \<Rightarrow> jvalue" where
  "slot None = Undefined"
| "slot (Some v) = v"

text \<open>\<open>v[k]\<close> for a value that is neither \<open>undefined\<close> nor \<open>null\<close>.\<close>

fun own_prop :: "jvalue \<Rightarrow> string \<Rightarrow> jvalue" where
  "own_prop (Obj kvs) k = (case map_of kvs k of None \<Rightarrow> Undefined | Some v \<Rightarrow> v)"
| "own_prop (Arr xs) k =
     (case array_index k of
        Some i \<Rightarrow> (if i < length xs then slot (xs ! i) else Undefined)
      | None \<Rightarrow> (if k = ''length'' then Num (int (length xs)) else Undefined))"
| "own_prop (Str s) k =
     (case array_index k of
        Some i \<Rightarrow> (if i < length s then Str [s ! i] else Undefined)
      | None \<Rightarrow> (if k = ''length'' then Num (int (length s)) else Undefined))"
| "own_prop v k = Undefined"

text \<open>\<open>v[k]\<close> in general: reading a property of \<open>undefined\<close> or \<open>null\<close> throws.\<close>

fun get_prop :: "jvalue \<Rightarrow> string \<Rightarrow> error + jvalue" where
  "get_prop Undefined k = Inl TypeError"
| "get_prop Null k = Inl TypeError"
| "get_prop v k = Inr (own_prop v k)"

text \<open>\<open>k in v\<close>: throws unless \<open>v\<close> is an object or an array.\<close>

fun has_prop :: "jvalue \<Rightarrow> string \<Rightarrow> error + bool" where
  "has_prop (Obj kvs) k = Inr (map_of kvs k \<noteq> None)"
| "has_prop (Arr xs) k =
     (case array_index k of
        Some i \<Rightarrow> Inr (i < length xs \<and> xs ! i \<noteq> None)
      | None \<Rightarrow> Inr (k = ''length''))"
| "has_prop v k = Inl TypeError"

text \<open>Storing into slot \<open>i\<close> of an array: beyond the end the array grows, with holes.\<close>

definition put_slot :: "jvalue option list \<Rightarrow> nat \<Rightarrow> jvalue \<Rightarrow> jvalue option list" where
  "put_slot xs i x =
     (if i < length xs then xs[i := Some x]
      else xs @ replicate (i - length xs) None @ [Some x])"

text \<open>\<open>v[k] = x\<close> in strict mode.\<close>

fun put_prop :: "jvalue \<Rightarrow> string \<Rightarrow> jvalue \<Rightarrow> error + jvalue" where
  "put_prop (Obj kvs) k x = Inr (Obj (AList.update k x kvs))"
| "put_prop (Arr xs) k x =
     (case array_index k of
        Some i \<Rightarrow> Inr (Arr (put_slot xs i x))
      | None \<Rightarrow> Inl Unmodelled)"
| "put_prop v k x = Inl TypeError"

text \<open>
  \<open>delete v[k]\<close> in strict mode: an array element leaves a hole; \<open>length\<close> of an array
  and the characters and \<open>length\<close> of a string cannot be deleted.
\<close>

fun del_prop :: "jvalue \<Rightarrow> string \<Rightarrow> error + jvalue" where
  "del_prop (Obj kvs) k = Inr (Obj (AList.delete k kvs))"
| "del_prop (Arr xs) k =
     (case array_index k of
        Some i \<Rightarrow> Inr (Arr (if i < length xs then xs[i := None] else xs))
      | None \<Rightarrow> (if k = ''length'' then Inl TypeError else Inr (Arr xs)))"
| "del_prop (Str s) k =
     (case array_index k of
        Some i \<Rightarrow> (if i < length s then Inl TypeError else Inr (Str s))
      | None \<Rightarrow> (if k = ''length'' then Inl TypeError else Inr (Str s)))"
| "del_prop Undefined k = Inl TypeError"
| "del_prop Null k = Inl TypeError"
| "del_prop v k = Inr v"

text \<open>\<open>Object.keys(v).length\<close>: throws on \<open>undefined\<close> and \<open>null\<close>.\<close>

fun keys_length :: "jvalue \<Rightarrow> error + nat" where
  "keys_length (Obj kvs) = Inr (length kvs)"
| "keys_length (Arr xs) = Inr (length (filter (\<lambda>x. x \<noteq> None) xs))"
| "keys_length (Str s) = Inr (length s)"
| "keys_length Undefined = Inl TypeError"
| "keys_length Null = Inl TypeError"
| "keys_length v = Inr 0"

text \<open>
  The source mutates objects in place. In the tree model a node that was changed
  through a reference is put back into its parent: \<open>subst v k c\<close> is \<open>v\<close> with the
  existing child under \<open>k\<close> replaced by \<open>c\<close>. A primitive has no children that can change.
\<close>

fun subst :: "jvalue \<Rightarrow> string \<Rightarrow> jvalue \<Rightarrow> jvalue" where
  "subst (Obj kvs) k c = (if map_of kvs k \<noteq> None then Obj (AList.update k c kvs) else Obj kvs)"
| "subst (Arr xs) k c =
     (case array_index k of
        Some i \<Rightarrow> (if i < length xs \<and> xs ! i \<noteq> None then Arr (xs[i := Some c]) else Arr xs)
      | None \<Rightarrow> Arr xs)"
| "subst v k c = v"

section \<open>Path addressing\<close>

text \<open>\<open>path.split('.')\<close>: never empty; the empty path is the single key \<open>''\<close>.\<close>

fun split_dot :: "string \<Rightarrow> string list" where
  "split_dot [] = [[]]"
| "split_dot (c # cs) =
     (if c = CHR ''.'' then [] # split_dot cs
      else (case split_dot cs of [] \<Rightarrow> [[c]] | w # ws \<Rightarrow> (c # w) # ws))"

text \<open>
  The reducer of \<open>getNestedValue\<close> (lines 112-116), which is also the reducer of the
  descent in \<open>deleteNestedValue\<close>:
  \<open>current && current[key] !== undefined ? current[key] : undefined\<close>.
\<close>

definition descend :: "jvalue \<Rightarrow> string \<Rightarrow> jvalue" where
  "descend current key =
     (if truthy current \<and> own_prop current key \<noteq> Undefined then own_prop current key else Undefined)"

definition getNestedValue :: "jvalue \<Rightarrow> string \<Rightarrow> jvalue" where
  "getNestedValue obj path = foldl descend obj (split_dot path)"

text \<open>
  \<open>setNestedValue\<close> (lines 119-130): \<open>set_in current keys lastKey value\<close> is the reduce
  over \<open>keys\<close> (the path without its last key), which stores \<open>{}\<close> under a key that is
  not \<open>in\<close> the current object and steps into \<open>current[key]\<close>, followed by
  \<open>target[lastKey] = value\<close>; it returns \<open>current\<close> as the mutation leaves it. A key that
  is present is stepped into whatever it holds.
\<close>

fun set_in :: "jvalue \<Rightarrow> string list \<Rightarrow> string \<Rightarrow> jvalue \<Rightarrow> error + jvalue" where
  "set_in target [] lastKey val = put_prop target lastKey val"
| "set_in current (key # keys) lastKey val =
     (case has_prop current key of
        Inl e \<Rightarrow> Inl e
      | Inr present \<Rightarrow>
          (case (if present then Inr current else put_prop current key (Obj [])) of
             Inl e \<Rightarrow> Inl e
           | Inr current' \<Rightarrow>
               (case set_in (own_prop current' key) keys lastKey val of
                  Inl e \<Rightarrow> Inl e
                | Inr child \<Rightarrow> Inr (subst current' key child))))"

definition setNestedValue :: "jvalue \<Rightarrow> string \<Rightarrow> jvalue \<Rightarrow> error + jvalue" where
  "setNestedValue obj path val =
     (let keys = split_dot path in set_in obj (butlast keys) (last keys) val)"

text \<open>
  \<open>modify_at ks f obj\<close>: the node reached from \<open>obj\<close> by reading \<open>ks\<close> is changed in
  place by \<open>f\<close>.
\<close>

fun modify_at :: "string list \<Rightarrow> (jvalue \<Rightarrow> error + jvalue) \<Rightarrow> jvalue \<Rightarrow> error + jvalue" where
  "modify_at [] f v = f v"
| "modify_at (k # ks) f v =
     (case modify_at ks f (own_prop v k) of
        Inl e \<Rightarrow> Inl e
      | Inr c \<Rightarrow> Inr (subst v k c))"

text \<open>\<open>ks.reduce((current, k) => current[k], obj)\<close>, with no guard.\<close>

fun walk :: "jvalue \<Rightarrow> string list \<Rightarrow> error + jvalue" where
  "walk v [] = Inr v"
| "walk v (k # ks) = (case get_prop v k of Inl e \<Rightarrow> Inl e | Inr c \<Rightarrow> walk c ks)"

text \<open>
  The clean-up loop of \<open>deleteNestedValue\<close> (lines 144-149). \<open>keys\<close> is the array after
  \<open>keys.reverse()\<close>, which reverses it in place: the \<open>slice\<close> inside the callback
  therefore cuts the reversed array. The second argument lists the indices that
  \<open>forEach\<close> still has to visit. An exception leaves the deletions made so far.
\<close>

fun prune :: "string list \<Rightarrow> nat list \<Rightarrow> jvalue \<Rightarrow> (error + unit) \<times> jvalue" where
  "prune keys [] obj = (Inr (), obj)"
| "prune keys (index # rest) obj =
     (let key = keys ! index;
          above = take (length keys - (index + 1)) keys
      in case walk obj above of
           Inl e \<Rightarrow> (Inl e, obj)
         | Inr parent \<Rightarrow>
             if truthy parent then
               (case keys_length (own_prop parent key) of
                  Inl e \<Rightarrow> (Inl e, obj)
                | Inr n \<Rightarrow>
                    if n = 0 then
                      (case modify_at above (\<lambda>p. del_prop p key) obj of
                         Inl e \<Rightarrow> (Inl e, obj)
                       | Inr obj' \<Rightarrow> prune keys rest obj')
                    else prune keys rest obj)
             else prune keys rest obj)"

text \<open>
  \<open>deleteNestedValue\<close> (lines 133-154), with the field \<open>noBlankData\<close> as an argument: the
  result, or the exception, and the document as the call leaves it.
\<close>

definition deleteNestedValue :: "bool \<Rightarrow> jvalue \<Rightarrow> string \<Rightarrow> (error + bool) \<times> jvalue" where
  "deleteNestedValue noBlankData obj path =
     (let keys0 = split_dot path;
          lastKey = last keys0;
          keys = butlast keys0;
          target = foldl descend obj keys
      in if truthy target \<and> own_prop target lastKey \<noteq> Undefined then
           (case modify_at keys (\<lambda>t. del_prop t lastKey) obj of
              Inl e \<Rightarrow> (Inl e, obj)
            | Inr obj1 \<Rightarrow>
                if noBlankData then
                  (case prune (rev keys) [0 ..< length keys] obj1 of
                     (Inl e, obj2) \<Rightarrow> (Inl e, obj2)
                   | (Inr u, obj2) \<Rightarrow> (Inr True, obj2))
                else (Inr True, obj1))
         else (Inr False, obj))"

section \<open>JSON text\<close>

text \<open>
  \<open>JSON.parse\<close> and \<open>JSON.stringify\<close> belong to the engine, not to the repository. They
  are modelled on the fragment of JSON that the value type holds: \<open>null\<close>, \<open>true\<close>,
  \<open>false\<close>, integers, strings, arrays and objects, with white space between the
  tokens. A number with a fraction or an exponent, and a \<open>\u\<close> escape above \<open>007f\<close>,
  are outside the fragment: \<open>JSON_parse\<close> has no value for them and rejects the text.
  A character is a byte of the file.
\<close>

subsection \<open>Reading\<close>

text \<open>A literal token carries the scalar it denotes.\<close>

datatype token = LBrace | RBrace | LBrack | RBrack | Comma | Colon | Lit jvalue

definition is_ws :: "char \<Rightarrow> bool" where
  "is_ws c = (c = CHR '' '' \<or> c = CHR 0x09 \<or> c = CHR 0x0A \<or> c = CHR 0x0D)"

definition hex_val :: "char \<Rightarrow> nat option" where
  "hex_val c =
     (let n = (of_char c :: nat) in
      if 48 \<le> n \<and> n \<le> 57 then Some (n - 48)
      else if 97 \<le> n \<and> n \<le> 102 then Some (n - 87)
      else if 65 \<le> n \<and> n \<le> 70 then Some (n - 55)
      else None)"

definition unescape :: "char \<Rightarrow> char option" where
  "unescape e =
     (if e = CHR 0x22 \<or> e = CHR 0x5C \<or> e = CHR ''/'' then Some e
      else if e = CHR ''b'' then Some (CHR 0x08)
      else if e = CHR ''f'' then Some (CHR 0x0C)
      else if e = CHR ''n'' then Some (CHR 0x0A)
      else if e = CHR ''r'' then Some (CHR 0x0D)
      else if e = CHR ''t'' then Some (CHR 0x09)
      else None)"

definition hex2 :: "char \<Rightarrow> char \<Rightarrow> nat option" where
  "hex2 h l =
     (case hex_val h of
        None \<Rightarrow> None
      | Some x \<Rightarrow> (case hex_val l of None \<Rightarrow> None | Some y \<Rightarrow> Some (16 * x + y)))"

text \<open>
  \<open>lex_string acc cs\<close> reads the rest of a string literal, after its opening quote:
  the string and the text behind the closing quote. A control character must be
  escaped.
\<close>

fun lex_string :: "string \<Rightarrow> string \<Rightarrow> (string \<times> string) option" where
  "lex_string acc [] = None"
| "lex_string acc (c # cs) =
     (if c = CHR 0x22 then Some (rev acc, cs)
      else if c = CHR 0x5C then
        (case cs of
           [] \<Rightarrow> None
         | e # es \<Rightarrow>
             if e = CHR ''u'' then
               (case es of
                  a # b # h # l # rest \<Rightarrow>
                    if hex2 a b = Some 0 \<and> hex2 h l \<noteq> None \<and> the (hex2 h l) < 128
                    then lex_string (char_of (the (hex2 h l)) # acc) rest
                    else None
                | _ \<Rightarrow> None)
             else
               (case unescape e of
                  None \<Rightarrow> None
                | Some x \<Rightarrow> lex_string (x # acc) es))
      else if (of_char c :: nat) < 32 then None
      else lex_string (c # acc) cs)"

lemma lex_string_shorter:
  "lex_string acc cs = Some (s, rest) \<Longrightarrow> length rest < length cs"
proof (induction acc cs rule: lex_string.induct)
  case (1 acc)
  then show ?case by simp
next
  case (2 acc c cs)
  show ?case
  proof (cases "c = CHR 0x22")
    case True
    with 2 show ?thesis by simp
  next
    case nq: False
    show ?thesis
    proof (cases "c = CHR 0x5C")
      case False
      with nq 2 show ?thesis by (auto split: if_splits)
    next
      case bs: True
      show ?thesis
      proof (cases cs)
        case Nil
        with 2 nq bs show ?thesis by simp
      next
        case (Cons e es)
        show ?thesis
        proof (cases "e = CHR ''u''")
          case False
          with 2 nq bs Cons show ?thesis
            by (force split: option.splits)
        next
          case True
          with 2 nq bs Cons show ?thesis
            by (force split: list.splits if_splits)
        qed
      qed
    qed
  qed
qed

text \<open>
  The tokens of a text. An integer has no leading zero; the words \<open>null\<close>, \<open>true\<close>
  and \<open>false\<close> are spelt in lower case.
\<close>

function tokenize :: "string \<Rightarrow> token list option" where
  "tokenize [] = Some []"
| "tokenize (c # cs) =
     (if is_ws c then tokenize cs
      else if c = CHR ''{'' then map_option (Cons LBrace) (tokenize cs)
      else if c = CHR ''}'' then map_option (Cons RBrace) (tokenize cs)
      else if c = CHR ''['' then map_option (Cons LBrack) (tokenize cs)
      else if c = CHR '']'' then map_option (Cons RBrack) (tokenize cs)
      else if c = CHR '','' then map_option (Cons Comma) (tokenize cs)
      else if c = CHR '':'' then map_option (Cons Colon) (tokenize cs)
      else if c = CHR 0x22 then
        (case lex_string [] cs of
           None \<Rightarrow> None
         | Some (s, rest) \<Rightarrow> map_option (Cons (Lit (Str s))) (tokenize rest))
      else if c = CHR ''-'' \<or> is_digit c then
        (let src = (if c = CHR ''-'' then cs else c # cs);
             ds = takeWhile is_digit src;
             rest = dropWhile is_digit src
         in if ds = [] \<or> (length ds > 1 \<and> hd ds = CHR ''0'') then None
            else if rest \<noteq> [] \<and> hd rest \<in> set ''.eE'' then None
            else map_option
                   (Cons (Lit (Num (if c = CHR ''-'' then - int (dec_val ds) else int (dec_val ds)))))
                   (tokenize rest))
      else if c = CHR ''n'' then
        (case cs of
           x # y # z # rest \<Rightarrow>
             if [x, y, z] = ''ull'' then map_option (Cons (Lit Null)) (tokenize rest) else None
         | _ \<Rightarrow> None)
      else if c = CHR ''t'' then
        (case cs of
           x # y # z # rest \<Rightarrow>
             if [x, y, z] = ''rue'' then map_option (Cons (Lit (Bool True))) (tokenize rest) else None
         | _ \<Rightarrow> None)
      else if c = CHR ''f'' then
        (case cs of
           w # x # y # z # rest \<Rightarrow>
             if [w, x, y, z] = ''alse'' then map_option (Cons (Lit (Bool False))) (tokenize rest) else None
         | _ \<Rightarrow> None)
      else None)"
  by pat_completeness auto
termination
proof (relation "measure length", goal_cases)
  case 1 show ?case by simp
next
  case (9 c cs x2 x y) then show ?case by (auto dest: lex_string_shorter)
next
  case (10 c cs src ds rest) then show ?case
    by (auto simp: le_imp_less_Suc length_dropWhile_le is_digit_def
             intro: le_less_trans [OF length_dropWhile_le])
qed auto

text \<open>
  The parser is a pushdown automaton over the tokens. A frame is an array or an object
  under construction together with what may come next: \<open>AStart\<close> after \<open>[\<close>, \<open>ANext\<close>
  after an element, \<open>AComma\<close> after a comma; \<open>OStart\<close> after \<open>{\<close>, \<open>OKey\<close> after a key,
  \<open>OColon\<close> after its colon, \<open>ONext\<close> after a member, \<open>OComma\<close> after a comma. With no
  frame left the text is expected to be one value; \<open>Done\<close> holds it. A key that occurs
  twice keeps its first position and its last value, as in the engine.
\<close>

datatype frame =
    AStart
  | ANext "jvalue option list"
  | AComma "jvalue option list"
  | OStart
  | OKey "(string \<times> jvalue) list" string
  | OColon "(string \<times> jvalue) list" string
  | ONext "(string \<times> jvalue) list"
  | OComma "(string \<times> jvalue) list"

datatype config = Done jvalue | Open "frame list" | Stuck

fun wants_value :: "frame list \<Rightarrow> bool" where
  "wants_value [] = True"
| "wants_value (AStart # st) = True"
| "wants_value (AComma xs # st) = True"
| "wants_value (OColon kvs k # st) = True"
| "wants_value (f # st) = False"

fun deliver :: "jvalue \<Rightarrow> frame list \<Rightarrow> config" where
  "deliver v [] = Done v"
| "deliver v (AStart # st) = Open (ANext [Some v] # st)"
| "deliver v (AComma xs # st) = Open (ANext (xs @ [Some v]) # st)"
| "deliver v (OColon kvs k # st) = Open (ONext (AList.update k v kvs) # st)"
| "deliver v (f # st) = Stuck"

fun close_array :: "frame list \<Rightarrow> config" where
  "close_array (AStart # st) = deliver (Arr []) st"
| "close_array (ANext xs # st) = deliver (Arr xs) st"
| "close_array st = Stuck"

fun close_object :: "frame list \<Rightarrow> config" where
  "close_object (OStart # st) = deliver (Obj []) st"
| "close_object (ONext kvs # st) = deliver (Obj kvs) st"
| "close_object st = Stuck"

fun comma :: "frame list \<Rightarrow> config" where
  "comma (ANext xs # st) = Open (AComma xs # st)"
| "comma (ONext kvs # st) = Open (OComma kvs # st)"
| "comma st = Stuck"

fun colon :: "frame list \<Rightarrow> config" where
  "colon (OKey kvs k # st) = Open (OColon kvs k # st)"
| "colon st = Stuck"

fun literal :: "jvalue \<Rightarrow> frame list \<Rightarrow> config" where
  "literal (Str k) (OStart # st) = Open (OKey [] k # st)"
| "literal (Str k) (OComma kvs # st) = Open (OKey kvs k # st)"
| "literal Undefined st = Stuck"
| "literal v st = deliver v st"

fun step :: "frame list \<Rightarrow> token \<Rightarrow> config" where
  "step st LBrack = (if wants_value st then Open (AStart # st) else Stuck)"
| "step st LBrace = (if wants_value st then Open (OStart # st) else Stuck)"
| "step st RBrack = close_array st"
| "step st RBrace = close_object st"
| "step st Comma = comma st"
| "step st Colon = colon st"
| "step st (Lit v) = literal v st"

fun run :: "config \<Rightarrow> token list \<Rightarrow> jvalue option" where
  "run (Done v) [] = Some v"
| "run (Open st) (t # ts) = run (step st t) ts"
| "run c ts = None"

text \<open>\<open>JSON.parse(text)\<close>: \<open>None\<close> where the engine throws a \<open>SyntaxError\<close>.\<close>

definition JSON_parse :: "string \<Rightarrow> jvalue option" where
  "JSON_parse text = (case tokenize text of None \<Rightarrow> None | Some ts \<Rightarrow> run (Open []) ts)"

subsection \<open>Writing\<close>

text \<open>
  \<open>JSON.stringify(value, null, indent)\<close> for the two values of \<open>indent\<close> that the store
  passes: 0 (compact) and 2 (one member or element per line, indented by two spaces
  per level). A property whose value is
  \<open>undefined\<close> is left out; \<open>undefined\<close> and a hole in an array are written as \<open>null\<close>;
  the properties of an object are written with the array indices first, in ascending
  order, and the other keys in insertion order. For \<open>undefined\<close> itself there is no
  text: the result is \<open>undefined\<close>, here \<open>None\<close>.
\<close>

definition hex_digit :: "nat \<Rightarrow> char" where
  "hex_digit n = ''0123456789abcdef'' ! n"

definition escape :: "char \<Rightarrow> string" where
  "escape c =
     (if c = CHR 0x22 then [CHR 0x5C, CHR 0x22]
      else if c = CHR 0x5C then [CHR 0x5C, CHR 0x5C]
      else if c = CHR 0x08 then [CHR 0x5C, CHR ''b'']
      else if c = CHR 0x0C then [CHR 0x5C, CHR ''f'']
      else if c = CHR 0x0A then [CHR 0x5C, CHR ''n'']
      else if c = CHR 0x0D then [CHR 0x5C, CHR ''r'']
      else if c = CHR 0x09 then [CHR 0x5C, CHR ''t'']
      else if (of_char c :: nat) < 32 then
        [CHR 0x5C, CHR ''u'', CHR ''0'', CHR ''0'',
         hex_digit (of_char c div 16), hex_digit (of_char c mod 16)]
      else [c])"

definition quote :: "string \<Rightarrow> string" where
  "quote s = CHR 0x22 # concat (map escape s) @ [CHR 0x22]"

definition digit_char :: "nat \<Rightarrow> char" where
  "digit_char n = ''0123456789'' ! n"

fun show_nat :: "nat \<Rightarrow> string" where
  "show_nat n =
     (if n < 10 then [digit_char n] else show_nat (n div 10) @ [digit_char (n mod 10)])"

definition show_int :: "int \<Rightarrow> string" where
  "show_int i = (if i < 0 then CHR ''-'' # show_nat (nat (- i)) else show_nat (nat i))"

definition property_order :: "(string \<times> 'a) list \<Rightarrow> (string \<times> 'a) list" where
  "property_order kvs =
     sort_key (\<lambda>kv. the (array_index (fst kv))) (filter (\<lambda>kv. array_index (fst kv) \<noteq> None) kvs)
     @ filter (\<lambda>kv. array_index (fst kv) = None) kvs"

definition nl :: "bool \<Rightarrow> nat \<Rightarrow> string" where
  "nl pretty n = (if pretty then CHR 0x0A # replicate (2 * n) (CHR '' '') else [])"

fun join :: "'a list \<Rightarrow> 'a list list \<Rightarrow> 'a list" where
  "join sep [] = []"
| "join sep [x] = x"
| "join sep (x # y # ys) = x @ sep @ join sep (y # ys)"

lemma set_property_order [simp]: "set (property_order kvs) = set kvs"
  by (auto simp: property_order_def)

lemma size_member:
  "(k, v) \<in> set kvs \<Longrightarrow> size v < Suc (size_list (size_prod (\<lambda>_. 0) size) kvs)"
  by (induction kvs) auto

lemma size_element:
  "Some v \<in> set xs \<Longrightarrow> size v < Suc (size_list (size_option size) xs)"
  by (induction xs) auto

function serialize :: "bool \<Rightarrow> nat \<Rightarrow> jvalue \<Rightarrow> string" where
  "serialize p n Undefined = ''null''"
| "serialize p n Null = ''null''"
| "serialize p n (Bool b) = (if b then ''true'' else ''false'')"
| "serialize p n (Num i) = show_int i"
| "serialize p n (Str s) = quote s"
| "serialize p n (Arr xs) =
     (if xs = [] then ''[]''
      else ''['' @ nl p (n + 1)
           @ join ('','' @ nl p (n + 1))
               (map (\<lambda>x. case x of None \<Rightarrow> ''null'' | Some v \<Rightarrow> serialize p (n + 1) v) xs)
           @ nl p n @ '']'')"
| "serialize p n (Obj kvs) =
     (let members = filter (\<lambda>kv. snd kv \<noteq> Undefined) (property_order kvs) in
      if members = [] then ''{}''
      else ''{'' @ nl p (n + 1)
           @ join ('','' @ nl p (n + 1))
               (map (\<lambda>kv. quote (fst kv) @ (if p then '': '' else '':'')
                             @ serialize p (n + 1) (snd kv)) members)
           @ nl p n @ ''}'')"
  by pat_completeness auto
termination
proof (relation "measure (\<lambda>(p, n, v). size v)", goal_cases)
  case 1
  show ?case by simp
next
  case (2 p n xs x v)
  then show ?case using size_element [of v xs] by simp
next
  case (3 p n kvs members kv)
  then have "(fst kv, snd kv) \<in> set kvs" by simp
  then show ?case using size_member [of "fst kv" "snd kv" kvs] by simp
qed

definition JSON_stringify :: "jvalue \<Rightarrow> nat \<Rightarrow> string option" where
  "JSON_stringify v indent =
     (if v = Undefined then None else Some (serialize (indent \<noteq> 0) 0 v))"

section \<open>The store\<close>

text \<open>
  The three files of one store (\<open>filePath\<close>, \<open>backupPath\<close> and the temporary file of
  \<open>save\<close>) are a map from the path to the text of the file; a path that maps to
  \<open>None\<close> does not exist. The record holds the fields of the instance that the
  operations read. An operation returns what it returns or throws, together with the
  store as it leaves it: an exception does not undo what was done before it.
\<close>

datatype path = FilePath | BackupPath | TempPath

type_synonym files = "path \<Rightarrow> string option"

record store =
  data :: jvalue
  readable :: bool
  noBlankData :: bool
  disk :: files

type_synonym 'a outcome = "(error + 'a) \<times> store"

subsection \<open>Persistence\<close>

text \<open>
  \<open>parseData\<close> (lines 80-82) is \<open>JSON.parse(data || '{}')\<close>; \<open>stringifyData\<close> (lines 84-86)
  is \<open>JSON.stringify(data, null, this.readable ? 2 : 0)\<close>; \<open>validateData\<close> (lines 88-94)
  replaces the exception of \<open>JSON.parse\<close> by \<open>Error('Invalid JSON format')\<close>.
\<close>

definition parseData :: "string \<Rightarrow> error + jvalue" where
  "parseData text =
     (case JSON_parse (if text = [] then ''{}'' else text) of
        None \<Rightarrow> Inl SyntaxError
      | Some v \<Rightarrow> Inr v)"

definition stringifyData :: "store \<Rightarrow> string option" where
  "stringifyData s = JSON_stringify (data s) (if readable s then 2 else 0)"

definition validateData :: "string \<Rightarrow> error + unit" where
  "validateData text = (case JSON_parse text of None \<Rightarrow> Inl InvalidJSON | Some v \<Rightarrow> Inr ())"

text \<open>
  \<open>createBackup\<close> (lines 96-99). \<open>fs.writeFileSync\<close> refuses data that is not a string
  with a \<open>TypeError\<close>.
\<close>

definition createBackup :: "store \<Rightarrow> unit outcome" where
  "createBackup s =
     (case stringifyData s of
        None \<Rightarrow> (Inl TypeError, s)
      | Some text \<Rightarrow> (Inr (), s\<lparr>disk := (disk s)(BackupPath \<mapsto> text)\<rparr>))"

text \<open>
  \<open>save\<close> (lines 101-109): write the temporary file, validate what is read back from
  it, move it over the main file, refresh the backup. The write to the temporary file
  is made explicit: \<open>written text\<close> is what the temporary file holds after \<open>text\<close> was
  written to it, so that a corrupted write can be stated. On a sound disk it is the
  text itself, and that is \<open>save\<close>.
\<close>

definition save_with :: "(string \<Rightarrow> string) \<Rightarrow> store \<Rightarrow> unit outcome" where
  "save_with written s =
     (case stringifyData s of
        None \<Rightarrow> (Inl TypeError, s)
      | Some text \<Rightarrow>
          (let s1 = s\<lparr>disk := (disk s)(TempPath \<mapsto> written text)\<rparr> in
           case validateData (written text) of
             Inl e \<Rightarrow> (Inl e, s1)
           | Inr u \<Rightarrow>
               createBackup
                 (s1\<lparr>disk := (disk s1)(FilePath := disk s1 TempPath, TempPath := None)\<rparr>)))"

definition save :: "store \<Rightarrow> unit outcome" where
  "save = save_with (\<lambda>text. text)"

text \<open>\<open>this.validateData(text); this.data = this.parseData(text)\<close>.\<close>

definition adopt :: "string \<Rightarrow> store \<Rightarrow> unit outcome" where
  "adopt text s =
     (case validateData text of
        Inl e \<Rightarrow> (Inl e, s)
      | Inr u \<Rightarrow> (case parseData text of Inl e \<Rightarrow> (Inl e, s) | Inr v \<Rightarrow> (Inr (), s\<lparr>data := v\<rparr>)))"

text \<open>
  \<open>loadDatabase\<close> (lines 52-78): its \<open>try\<close> block, its \<open>catch\<close> block, which starts from
  the store as the \<open>try\<close> block left it, and the two together. \<open>fs.existsSync(p)\<close> is
  \<open>disk s p \<noteq> None\<close>.
\<close>

definition load_try :: "store \<Rightarrow> unit outcome" where
  "load_try s =
     (case disk s FilePath of
        Some text \<Rightarrow>
          (case adopt text s of (Inl e, s') \<Rightarrow> (Inl e, s') | (Inr u, s') \<Rightarrow> createBackup s')
      | None \<Rightarrow>
          (case disk s BackupPath of
             Some backupData \<Rightarrow>
               (case adopt backupData s of (Inl e, s') \<Rightarrow> (Inl e, s') | (Inr u, s') \<Rightarrow> save s')
           | None \<Rightarrow> save s))"

definition load_catch :: "store \<Rightarrow> unit outcome" where
  "load_catch s =
     (case disk s BackupPath of
        Some backupData \<Rightarrow>
          (case adopt backupData s of (Inl e, s') \<Rightarrow> (Inl e, s') | (Inr u, s') \<Rightarrow> save s')
      | None \<Rightarrow> save (s\<lparr>data := Obj []\<rparr>))"

definition loadDatabase :: "store \<Rightarrow> unit outcome" where
  "loadDatabase s =
     (case load_try s of (Inl e, s') \<Rightarrow> load_catch s' | (Inr u, s') \<Rightarrow> (Inr u, s'))"

text \<open>
  The constructor (lines 7-28), from the options \<open>readable\<close> and \<open>noBlankData\<close> and the
  files it finds: \<open>this.data = {}\<close>, then \<open>initializeDatabase\<close>. The folder, which is
  created when it is missing, and the backup timer are not modelled.
\<close>

definition initializeDatabase :: "store \<Rightarrow> unit outcome" where
  "initializeDatabase s = loadDatabase s"

definition new_LumeDB :: "bool \<Rightarrow> bool \<Rightarrow> files \<Rightarrow> unit outcome" where
  "new_LumeDB opt_readable opt_noBlankData fs =
     initializeDatabase
       \<lparr>data = Obj [], readable = opt_readable, noBlankData = opt_noBlankData, disk = fs\<rparr>"

subsection \<open>Operations\<close>

text \<open>
  \<open>set\<close>, \<open>get\<close>, \<open>fetch\<close> and \<open>delete\<close> (lines 157-175), \<open>has\<close> (lines 234-236) and
  \<open>deleteAll\<close> (lines 238-242). \<open>set\<close> and \<open>delete\<close> are named \<open>set_db\<close> and \<open>delete_db\<close>
  here. When \<open>setNestedValue\<close> throws, nothing has been changed and nothing is saved;
  when \<open>deleteNestedValue\<close> throws, the document keeps what was deleted before.
\<close>

definition set_db :: "store \<Rightarrow> string \<Rightarrow> jvalue \<Rightarrow> jvalue outcome" where
  "set_db s key val =
     (case setNestedValue (data s) key val of
        Inl e \<Rightarrow> (Inl e, s)
      | Inr d \<Rightarrow>
          (case save (s\<lparr>data := d\<rparr>) of
             (Inl e, s') \<Rightarrow> (Inl e, s')
           | (Inr u, s') \<Rightarrow> (Inr val, s')))"

definition fetch :: "store \<Rightarrow> string \<Rightarrow> jvalue" where
  "fetch s key = getNestedValue (data s) key"

definition get :: "store \<Rightarrow> string \<Rightarrow> jvalue" where
  "get s key = fetch s key"

definition delete_db :: "store \<Rightarrow> string \<Rightarrow> bool outcome" where
  "delete_db s key =
     (case deleteNestedValue (noBlankData s) (data s) key of
        (Inl e, d) \<Rightarrow> (Inl e, s\<lparr>data := d\<rparr>)
      | (Inr result, d) \<Rightarrow>
          (case save (s\<lparr>data := d\<rparr>) of
             (Inl e, s') \<Rightarrow> (Inl e, s')
           | (Inr u, s') \<Rightarrow> (Inr result, s')))"

definition has :: "store \<Rightarrow> string \<Rightarrow> bool" where
  "has s key = (getNestedValue (data s) key \<noteq> Undefined)"

definition deleteAll :: "store \<Rightarrow> bool outcome" where
  "deleteAll s =
     (case save (s\<lparr>data := Obj []\<rparr>) of
        (Inl e, s') \<Rightarrow> (Inl e, s')
      | (Inr u, s') \<Rightarrow> (Inr True, s'))"

text \<open>
  The array operations (lines 194-232) start from \<open>this.get(key) || []\<close>. The array
  found in the document is changed in place and then stored under the path it was
  read from; in the tree model this is the \<open>set\<close> of the changed array. They are
  \<open>async\<close>: an exception is the rejection of the promise they return.
\<close>

definition get_or_empty :: "store \<Rightarrow> string \<Rightarrow> jvalue" where
  "get_or_empty s key = (if truthy (get s key) then get s key else Arr [])"

definition store_array :: "store \<Rightarrow> string \<Rightarrow> jvalue \<Rightarrow> jvalue outcome" where
  "store_array s key array =
     (case set_db s key array of
        (Inl e, s') \<Rightarrow> (Inl e, s')
      | (Inr v, s') \<Rightarrow> (Inr array, s'))"

definition push :: "store \<Rightarrow> string \<Rightarrow> jvalue \<Rightarrow> jvalue outcome" where
  "push s key val =
     (case get_or_empty s key of
        Arr xs \<Rightarrow> store_array s key (Arr (xs @ [Some val]))
      | other \<Rightarrow> (Inl NotAnArray, s))"

text \<open>
  \<open>unpush\<close>: \<open>filter\<close> skips the holes. The deep equality \<open>_.isEqual\<close> of lodash is a
  parameter.
\<close>

definition unpush :: "(jvalue \<Rightarrow> jvalue \<Rightarrow> bool) \<Rightarrow> store \<Rightarrow> string \<Rightarrow> jvalue \<Rightarrow> jvalue outcome" where
  "unpush isEqual s key val =
     (case get_or_empty s key of
        Arr xs \<Rightarrow>
          store_array s key
            (Arr (filter (\<lambda>x. case x of None \<Rightarrow> False | Some item \<Rightarrow> \<not> isEqual item val) xs))
      | other \<Rightarrow> (Inl NotAnArray, s))"

text \<open>\<open>array.splice(start, 1)\<close>: a negative \<open>start\<close> counts from the end.\<close>

definition splice1 :: "'a list \<Rightarrow> int \<Rightarrow> 'a list" where
  "splice1 xs start =
     (let len = int (length xs);
          actualStart = (if start < 0 then max (len + start) 0 else min start len);
          deleteCount = min 1 (len - actualStart)
      in take (nat actualStart) xs @ drop (nat (actualStart + deleteCount)) xs)"

definition delByPriority :: "store \<Rightarrow> string \<Rightarrow> int \<Rightarrow> jvalue outcome" where
  "delByPriority s key priority =
     (case get_or_empty s key of
        Arr xs \<Rightarrow> store_array s key (Arr (splice1 xs (priority - 1)))
      | other \<Rightarrow> (Inl NotAnArray, s))"

text \<open>
  \<open>array[priority - 1] = value\<close>: an index outside \<open>0 .. 2^32 - 2\<close> names a property of
  the array, not an element.
\<close>

definition setByPriority :: "store \<Rightarrow> string \<Rightarrow> jvalue \<Rightarrow> int \<Rightarrow> jvalue outcome" where
  "setByPriority s key val priority =
     (case get_or_empty s key of
        Arr xs \<Rightarrow>
          (if 0 \<le> priority - 1 \<and> priority - 1 < 2 ^ 32 - 1
           then store_array s key (Arr (put_slot xs (nat (priority - 1)) val))
           else (Inl Unmodelled, s))
      | other \<Rightarrow> (Inl NotAnArray, s))"



section \<open>The text that \<open>JSON_stringify\<close> writes is read back by \<open>JSON_parse\<close>\<close>

definition sep :: "string \<Rightarrow> bool" where
  "sep rest = (rest = [] \<or> (\<not> is_digit (hd rest) \<and> hd rest \<notin> set ''.eE''))"

function toks :: "jvalue \<Rightarrow> token list" where
  "toks Undefined = [Lit Null]"
| "toks Null = [Lit Null]"
| "toks (Bool b) = [Lit (Bool b)]"
| "toks (Num i) = [Lit (Num i)]"
| "toks (Str s) = [Lit (Str s)]"
| "toks (Arr xs) =
     LBrack # join [Comma] (map (\<lambda>x. case x of None \<Rightarrow> [Lit Null] | Some v \<Rightarrow> toks v) xs)
       @ [RBrack]"
| "toks (Obj kvs) =
     LBrace # join [Comma]
                (map (\<lambda>kv. Lit (Str (fst kv)) # Colon # toks (snd kv))
                   (filter (\<lambda>kv. snd kv \<noteq> Undefined) (property_order kvs)))
       @ [RBrace]"
  by pat_completeness auto
termination
proof (relation "measure size", goal_cases)
  case 1
  show ?case by simp
next
  case (2 xs x v)
  then show ?case using size_element [of v xs] by simp
next
  case (3 kvs kv)
  then have "(fst kv, snd kv) \<in> set kvs" by simp
  then show ?case using size_member [of "fst kv" "snd kv" kvs] by simp
qed

lemma lex_ws: "list_all is_ws ws \<Longrightarrow> tokenize (ws @ rest) = tokenize rest"
  by (induction ws) auto

lemma ws_nl: "list_all is_ws (nl p n)"
  by (auto simp: nl_def is_ws_def list_all_iff)

lemma lex_nl: "tokenize (nl p n @ rest) = tokenize rest"
  by (rule lex_ws [OF ws_nl])

lemma hex_val_digit: "d < 16 \<Longrightarrow> hex_val (hex_digit d) = Some d"
proof -
  assume "d < 16"
  then have "d \<in> {0, 1, 2, 3, 4, 5, 6, 7, 8, 9, 10, 11, 12, 13, 14, 15}" by simp arith
  then show ?thesis
    by (auto simp: hex_val_def hex_digit_def)
qed

lemma hex2_digits: "n < 256 \<Longrightarrow> hex2 (hex_digit (n div 16)) (hex_digit (n mod 16)) = Some n"
  by (simp add: hex2_def hex_val_digit)

lemma lex_string_escape: "lex_string acc (escape c @ r) = lex_string (c # acc) r"
proof -
  have lt: "(of_char c :: nat) < 256" by simp
  consider (q) "c = CHR 0x22" | (b) "c = CHR 0x5C" | (c1) "c = CHR 0x08" | (c2) "c = CHR 0x0C"
    | (c3) "c = CHR 0x0A" | (c4) "c = CHR 0x0D" | (c5) "c = CHR 0x09"
    | (ctl) "c \<notin> {CHR 0x22, CHR 0x5C, CHR 0x08, CHR 0x0C, CHR 0x0A, CHR 0x0D, CHR 0x09}" "(of_char c :: nat) < 32"
    | (plain) "c \<notin> {CHR 0x22, CHR 0x5C, CHR 0x08, CHR 0x0C, CHR 0x0A, CHR 0x0D, CHR 0x09}" "\<not> (of_char c :: nat) < 32"
    by blast
  then show ?thesis
  proof cases
    case ctl
    have z: "hex2 (CHR ''0'') (CHR ''0'') = Some 0" by (simp add: hex2_def hex_val_def)
    from ctl show ?thesis
      by (simp add: escape_def z hex2_digits [OF lt])
  next
    case plain
    then show ?thesis by (simp add: escape_def)
  qed (simp_all add: escape_def unescape_def)
qed

lemma lex_string_body:
  "lex_string acc (concat (map escape s) @ CHR 0x22 # rest) = Some (rev acc @ s, rest)"
proof (induction s arbitrary: acc)
  case Nil
  show ?case by simp
next
  case (Cons c s)
  show ?case using Cons [of "c # acc"] by (simp add: lex_string_escape)
qed

lemma lex_quote: "tokenize (quote s @ rest) = map_option (Cons (Lit (Str s))) (tokenize rest)"
  using lex_string_body [of "[]" s rest] by (simp add: quote_def is_ws_def)

lemma lex_null: "tokenize (CHR ''n'' # CHR ''u'' # CHR ''l'' # CHR ''l'' # rest) = map_option (Cons (Lit Null)) (tokenize rest)"
  by (simp add: is_ws_def is_digit_def)

lemma lex_true: "tokenize (CHR ''t'' # CHR ''r'' # CHR ''u'' # CHR ''e'' # rest) = map_option (Cons (Lit (Bool True))) (tokenize rest)"
  by (simp add: is_ws_def is_digit_def)

lemma lex_false: "tokenize (CHR ''f'' # CHR ''a'' # CHR ''l'' # CHR ''s'' # CHR ''e'' # rest) = map_option (Cons (Lit (Bool False))) (tokenize rest)"
  by (simp add: is_ws_def is_digit_def)

lemma digit_char_digit: "d < 10 \<Longrightarrow> is_digit (digit_char d) \<and> digit_val (digit_char d) = d"
proof -
  assume "d < 10"
  then have "d \<in> {0, 1, 2, 3, 4, 5, 6, 7, 8, 9}" by simp arith
  then show ?thesis by (auto simp: is_digit_def digit_char_def digit_val_def)
qed

lemma digit_char_zero: "d < 10 \<Longrightarrow> digit_char d = CHR ''0'' \<Longrightarrow> d = 0"
  using digit_char_digit [of d] by (auto simp: digit_val_def)

lemma dec_val_snoc: "dec_val (ds @ [c]) = 10 * dec_val ds + digit_val c"
  by (simp add: dec_val_def)

lemma show_nat_ne: "show_nat n \<noteq> []"
  by (subst show_nat.simps) simp

lemma show_nat_digits: "list_all is_digit (show_nat n)"
proof (induction n rule: show_nat.induct)
  case (1 n)
  show ?case
  proof (cases "n < 10")
    case True
    then show ?thesis by (subst show_nat.simps) (simp add: digit_char_digit)
  next
    case False
    with 1 show ?thesis by (subst show_nat.simps) (simp add: digit_char_digit)
  qed
qed

lemma dec_val_show_nat: "dec_val (show_nat n) = n"
proof (induction n rule: show_nat.induct)
  case (1 n)
  show ?case
  proof (cases "n < 10")
    case True
    then show ?thesis by (subst show_nat.simps) (simp add: digit_char_digit dec_val_def)
  next
    case False
    with 1 show ?thesis
      by (subst show_nat.simps) (simp add: digit_char_digit dec_val_snoc)
  qed
qed

lemma show_nat_leading: "0 < n \<Longrightarrow> hd (show_nat n) \<noteq> CHR ''0''"
proof (induction n rule: show_nat.induct)
  case (1 n)
  show ?case
  proof (cases "n < 10")
    case True
    with 1(2) show ?thesis
      by (subst show_nat.simps) (auto dest: digit_char_zero)
  next
    case False
    then have "0 < n div 10" by simp
    with 1(1) False have "hd (show_nat (n div 10)) \<noteq> CHR ''0''" by simp
    with False show ?thesis
      by (subst show_nat.simps) (simp add: show_nat_ne)
  qed
qed

lemma show_nat_zero: "show_nat 0 = ''0''"
  by (simp add: digit_char_def)

lemma show_nat_canonical: "length (show_nat n) > 1 \<Longrightarrow> hd (show_nat n) \<noteq> CHR ''0''"
  by (cases "n = 0") (simp_all add: show_nat_zero show_nat_leading del: show_nat.simps)

lemma digit_plain:
  "is_digit c \<Longrightarrow> \<not> is_ws c \<and> c \<notin> set ''{}[],:-'' \<and> c \<noteq> CHR 0x22"
  by (auto simp: is_digit_def is_ws_def)

lemma takeWhile_digits:
  "list_all is_digit ds \<Longrightarrow> sep rest \<Longrightarrow>
     takeWhile is_digit (ds @ rest) = ds \<and> dropWhile is_digit (ds @ rest) = rest"
  by (cases rest) (auto simp: sep_def list_all_iff)

lemma lex_digits:
  assumes "ds \<noteq> []" "list_all is_digit ds" "length ds > 1 \<longrightarrow> hd ds \<noteq> CHR ''0''" "sep rest"
  shows "tokenize (ds @ rest) = map_option (Cons (Lit (Num (int (dec_val ds))))) (tokenize rest)"
    and "tokenize (CHR ''-'' # ds @ rest) = map_option (Cons (Lit (Num (- int (dec_val ds))))) (tokenize rest)"
proof -
  from assms(1) obtain d ds' where ds: "ds = d # ds'" by (cases ds) auto
  with assms(2) have d: "is_digit d" by simp
  have tw: "takeWhile is_digit (d # ds' @ rest) = d # ds'"
            "dropWhile is_digit (d # ds' @ rest) = rest"
    using takeWhile_digits [OF assms(2) assms(4)] by (simp_all add: ds del: takeWhile.simps dropWhile.simps)
  have c1: "ds' = [] \<or> d \<noteq> CHR ''0''" using assms(3) by (auto simp: ds)
  have c2: "rest = [] \<or> hd rest \<notin> set ''.eE''" using assms(4) by (auto simp: sep_def)
  have "tokenize (d # ds' @ rest) = map_option (Cons (Lit (Num (int (dec_val ds))))) (tokenize rest)"
    using digit_plain [OF d] d c1 c2
    by (auto simp: Let_def tw ds simp del: takeWhile.simps dropWhile.simps)
  then show "tokenize (ds @ rest) = map_option (Cons (Lit (Num (int (dec_val ds))))) (tokenize rest)"
    by (simp add: ds)
  show "tokenize (CHR ''-'' # ds @ rest) = map_option (Cons (Lit (Num (- int (dec_val ds))))) (tokenize rest)"
    using c1 c2
    by (auto simp: is_ws_def Let_def tw ds simp del: takeWhile.simps dropWhile.simps)
qed

lemma lex_show_int:
  "sep rest \<Longrightarrow> tokenize (show_int i @ rest) = map_option (Cons (Lit (Num i))) (tokenize rest)"
  using lex_digits [OF show_nat_ne show_nat_digits _ , of "nat i" rest]
        lex_digits [OF show_nat_ne show_nat_digits _ , of "nat (- i)" rest]
  by (simp add: show_int_def show_nat_canonical dec_val_show_nat del: show_nat.simps)

lemma sep_simps [simp]:
  "sep []" "sep (CHR '','' # r)" "sep (CHR '']'' # r)" "sep (CHR ''}'' # r)" "sep (CHR 0x0A # r)"
  by (simp_all add: sep_def is_digit_def)

lemma sep_nl: "sep r \<Longrightarrow> sep (nl p n @ r)"
  by (simp add: nl_def)

lemma lex_join:
  assumes "\<And>x r. x \<in> set xs \<Longrightarrow> sep r \<Longrightarrow> tokenize (f x @ r) = map_option ((@) (g x)) (tokenize r)"
    and "sep rest"
  shows "tokenize (join (CHR '','' # nl p n) (map f xs) @ rest)
           = map_option ((@) (join [Comma] (map g xs))) (tokenize rest)"
  using assms
proof (induction xs rule: induct_list012)
  case 1
  show ?case by (simp add: option.map_ident cong: option.map_cong)
next
  case (2 x)
  then show ?case by simp
next
  case (3 x y zs)
  have "tokenize (f x @ CHR '','' # nl p n @ join (CHR '','' # nl p n) (map f (y # zs)) @ rest)
          = map_option ((@) (g x)) (tokenize (CHR '','' # nl p n @ join (CHR '','' # nl p n) (map f (y # zs)) @ rest))"
    by (rule 3(3)) simp_all
  moreover have "tokenize (join (CHR '','' # nl p n) (map f (y # zs)) @ rest)
          = map_option ((@) (join [Comma] (map g (y # zs)))) (tokenize rest)"
    by (rule 3(2)) (use 3(3,4) in auto)
  ultimately show ?case
    by (simp add: lex_nl is_ws_def option.map_comp comp_def)
qed

lemma append_single: "(@) [t] = (#) t"
  by (rule ext) simp

lemma lex_punct:
  "tokenize (CHR ''['' # r) = map_option (Cons LBrack) (tokenize r)"
  "tokenize (CHR '']'' # r) = map_option (Cons RBrack) (tokenize r)"
  "tokenize (CHR ''{'' # r) = map_option (Cons LBrace) (tokenize r)"
  "tokenize (CHR ''}'' # r) = map_option (Cons RBrace) (tokenize r)"
  "tokenize (CHR '':'' # r) = map_option (Cons Colon) (tokenize r)"
  "tokenize (CHR '' '' # r) = tokenize r"
  by (simp_all add: is_ws_def)

lemma lex_serialize:
  "sep rest \<Longrightarrow> tokenize (serialize p n v @ rest) = map_option ((@) (toks v)) (tokenize rest)"
proof (induction v arbitrary: p n rest)
  case Undefined
  show ?case by (simp add: lex_null append_single del: tokenize.simps)
next
  case Null
  show ?case by (simp add: lex_null append_single del: tokenize.simps)
next
  case (Bool b)
  show ?case by (simp add: lex_true lex_false append_single del: tokenize.simps)
next
  case (Num i)
  then show ?case by (simp add: lex_show_int append_single del: tokenize.simps)
next
  case (Str s)
  show ?case by (simp add: lex_quote append_single del: tokenize.simps)
next
  case (Arr xs)
  let ?f = "\<lambda>x. case x of None \<Rightarrow> ''null'' | Some v \<Rightarrow> serialize p (Suc n) v"
  let ?g = "\<lambda>x. case x of None \<Rightarrow> [Lit Null] | Some v \<Rightarrow> toks v"
  have el: "tokenize (?f x @ r) = map_option ((@) (?g x)) (tokenize r)" if "x \<in> set xs" "sep r" for x r
  proof (cases x)
    case None
    then show ?thesis by (simp add: lex_null append_single del: tokenize.simps)
  next
    case (Some v)
    with that Arr.IH [of x v r p "Suc n"] show ?thesis by (simp del: tokenize.simps)
  qed
  have "tokenize (join (CHR '','' # nl p (Suc n)) (map ?f xs) @ nl p n @ CHR '']'' # rest)
          = map_option ((@) (join [Comma] (map ?g xs))) (tokenize (nl p n @ CHR '']'' # rest))"
    by (rule lex_join [OF el]) (simp_all add: sep_nl)
  then show ?case
    by (cases "tokenize rest") (simp_all add: lex_punct lex_nl del: tokenize.simps)
next
  case (Obj kvs)
  define ms where "ms = filter (\<lambda>kv. snd kv \<noteq> Undefined) (property_order kvs)"
  let ?f = "\<lambda>kv. quote (fst kv) @ (if p then '': '' else '':'') @ serialize p (Suc n) (snd kv)"
  let ?g = "\<lambda>kv. Lit (Str (fst kv)) # Colon # toks (snd kv)"
  have el: "tokenize (?f kv @ r) = map_option ((@) (?g kv)) (tokenize r)" if "kv \<in> set ms" "sep r" for kv r
  proof -
    from that(1) have "kv \<in> set kvs" by (simp add: ms_def)
    moreover obtain k v where kv: "kv = (k, v)" by (cases kv)
    ultimately have "tokenize (serialize p (Suc n) (snd kv) @ r) = map_option ((@) (toks (snd kv))) (tokenize r)"
      using Obj.IH [of kv v r p "Suc n"] that(2) by (simp del: tokenize.simps)
    then show ?thesis
      by (cases p; cases "tokenize r") (simp_all add: lex_quote lex_punct del: tokenize.simps)
  qed
  have "tokenize (join (CHR '','' # nl p (Suc n)) (map ?f ms) @ nl p n @ CHR ''}'' # rest)
          = map_option ((@) (join [Comma] (map ?g ms))) (tokenize (nl p n @ CHR ''}'' # rest))"
    by (rule lex_join [OF el]) (simp_all add: sep_nl)
  then show ?case
    by (cases "tokenize rest") (simp_all add: lex_punct lex_nl ms_def [symmetric] Let_def del: tokenize.simps)
qed

lemma literal_deliver:
  "wants_value st \<Longrightarrow> v \<noteq> Undefined \<Longrightarrow> literal v st = deliver v st"
  by (cases "(v, st)" rule: literal.cases) auto

lemma deliver_array:
  "fr = AStart \<or> fr = AComma acc \<Longrightarrow>
     deliver v (fr # st) = Open (ANext ((if fr = AStart then [] else acc) @ [Some v]) # st)"
  by auto

lemma run_key:
  "fr = OStart \<or> fr = OComma acc \<Longrightarrow>
     run (Open (fr # st)) (Lit (Str k) # Colon # ts)
       = run (Open (OColon (if fr = OStart then [] else acc) k # st)) ts"
  by auto

lemma run_elements:
  assumes "\<And>x st. x \<in> set xs \<Longrightarrow> wants_value st \<Longrightarrow>
             \<exists>v'. \<forall>ts. run (Open st) (g x @ ts) = run (deliver v' st) ts"
    and "xs \<noteq> []" and "fr = AStart \<or> fr = AComma acc"
  shows "\<exists>ys. \<forall>ts. run (Open (fr # st)) (join [Comma] (map g xs) @ ts)
                     = run (Open (ANext ys # st)) ts"
  using assms
proof (induction xs arbitrary: fr acc rule: induct_list012)
  case 1
  then show ?case by simp
next
  case (2 x)
  from 2(3) have "wants_value (fr # st)" by auto
  with 2(1) [of x "fr # st"] obtain v' where
    "\<forall>ts. run (Open (fr # st)) (g x @ ts) = run (deliver v' (fr # st)) ts" by auto
  then show ?case unfolding deliver_array [OF 2(3)] by auto
next
  case (3 x y zs)
  from 3(5) have "wants_value (fr # st)" by auto
  with 3(3) [of x "fr # st"] obtain v' where
    "\<forall>ts. run (Open (fr # st)) (g x @ ts) = run (deliver v' (fr # st)) ts" by auto
  then obtain ys where
    x: "\<forall>ts. run (Open (fr # st)) (g x @ ts) = run (Open (ANext ys # st)) ts"
    unfolding deliver_array [OF 3(5)] by blast
  have "\<exists>zs'. \<forall>ts. run (Open (AComma ys # st)) (join [Comma] (map g (y # zs)) @ ts)
                     = run (Open (ANext zs' # st)) ts"
    by (rule 3(2) [where acc = ys]) (use 3(3) in auto)
  then obtain zs' where
    "\<forall>ts. run (Open (AComma ys # st)) (join [Comma] (map g (y # zs)) @ ts)
          = run (Open (ANext zs' # st)) ts" ..
  with x show ?case by (intro exI [of _ zs']) simp
qed

lemma run_members:
  assumes "\<And>kv st. kv \<in> set ms \<Longrightarrow> wants_value st \<Longrightarrow>
             \<exists>v'. \<forall>ts. run (Open st) (h kv @ ts) = run (deliver v' st) ts"
    and "ms \<noteq> []" and "fr = OStart \<or> fr = OComma acc"
  shows "\<exists>ys. \<forall>ts. run (Open (fr # st))
                       (join [Comma] (map (\<lambda>kv. Lit (Str (fst kv)) # Colon # h kv) ms) @ ts)
                     = run (Open (ONext ys # st)) ts"
  using assms
proof (induction ms arbitrary: fr acc rule: induct_list012)
  case 1
  then show ?case by simp
next
  case (2 kv)
  define kvs where "kvs = (if fr = OStart then [] else acc)"
  note k = run_key [OF 2(3), of st "fst kv", folded kvs_def]
  from 2(1) [of kv "OColon kvs (fst kv) # st"] obtain v' where
    "\<forall>ts. run (Open (OColon kvs (fst kv) # st)) (h kv @ ts)
          = run (deliver v' (OColon kvs (fst kv) # st)) ts" by auto
  then show ?case
    by (intro exI [of _ "AList.update (fst kv) v' kvs"]) (simp add: k del: run.simps)
next
  case (3 kv y zs)
  define kvs where "kvs = (if fr = OStart then [] else acc)"
  note k = run_key [OF 3(5), of st "fst kv", folded kvs_def]
  from 3(3) [of kv "OColon kvs (fst kv) # st"] obtain v' where
    v: "\<forall>ts. run (Open (OColon kvs (fst kv) # st)) (h kv @ ts)
          = run (deliver v' (OColon kvs (fst kv) # st)) ts" by auto
  define ys where "ys = AList.update (fst kv) v' kvs"
  have "\<exists>zs'. \<forall>ts. run (Open (OComma ys # st))
                       (join [Comma] (map (\<lambda>kv. Lit (Str (fst kv)) # Colon # h kv) (y # zs)) @ ts)
                     = run (Open (ONext zs' # st)) ts"
    by (rule 3(2) [where acc = ys]) (use 3(3) in auto)
  then obtain zs' where
    z: "\<forall>ts. run (Open (OComma ys # st))
             (join [Comma] (map (\<lambda>kv. Lit (Str (fst kv)) # Colon # h kv) (y # zs)) @ ts)
          = run (Open (ONext zs' # st)) ts" ..
  show ?case
  proof (intro exI [of _ zs'] allI)
    fix ts
    let ?rest = "join [Comma] (map (\<lambda>kv. Lit (Str (fst kv)) # Colon # h kv) (y # zs)) @ ts"
    have "run (Open (fr # st))
            (join [Comma] (map (\<lambda>kv. Lit (Str (fst kv)) # Colon # h kv) (kv # y # zs)) @ ts)
          = run (Open (OColon kvs (fst kv) # st)) (h kv @ Comma # ?rest)"
      by (simp add: k del: run.simps)
    also have "\<dots> = run (Open (ONext ys # st)) (Comma # ?rest)"
      using v by (simp add: ys_def)
    also have "\<dots> = run (Open (ONext zs' # st)) ts"
      using z by simp
    finally show "run (Open (fr # st))
            (join [Comma] (map (\<lambda>kv. Lit (Str (fst kv)) # Colon # h kv) (kv # y # zs)) @ ts)
          = run (Open (ONext zs' # st)) ts" .
  qed
qed

lemma run_toks:
  "wants_value st \<Longrightarrow> \<exists>v'. \<forall>ts. run (Open st) (toks v @ ts) = run (deliver v' st) ts"
proof (induction v arbitrary: st)
  case (Arr xs)
  show ?case
  proof (cases "xs = []")
    case True
    with Arr(2) show ?thesis by (intro exI [of _ "Arr []"]) simp
  next
    case False
    let ?g = "\<lambda>x. case x of None \<Rightarrow> [Lit Null] | Some v \<Rightarrow> toks v"
    have el: "\<exists>v'. \<forall>ts. run (Open st) (?g x @ ts) = run (deliver v' st) ts"
      if "x \<in> set xs" "wants_value st" for x st
    proof (cases x)
      case None
      with that(2) show ?thesis by (simp add: literal_deliver) blast
    next
      case (Some v)
      with that Arr.IH [of x v st] show ?thesis by simp
    qed
    from run_elements [of xs ?g AStart undefined st, OF el False]
    obtain ys where
      "\<forall>ts. run (Open (AStart # st)) (join [Comma] (map ?g xs) @ ts) = run (Open (ANext ys # st)) ts"
      by auto
    with Arr(2) show ?thesis by (intro exI [of _ "Arr ys"]) simp
  qed
next
  case (Obj kvs)
  define ms where "ms = filter (\<lambda>kv. snd kv \<noteq> Undefined) (property_order kvs)"
  show ?case
  proof (cases "ms = []")
    case True
    with Obj(2) show ?thesis by (intro exI [of _ "Obj []"]) (simp add: ms_def)
  next
    case False
    have el: "\<exists>v'. \<forall>ts. run (Open st) (toks (snd kv) @ ts) = run (deliver v' st) ts"
      if "kv \<in> set ms" "wants_value st" for kv st
    proof -
      from that(1) have "kv \<in> set kvs" by (simp add: ms_def)
      moreover obtain k v where "kv = (k, v)" by (cases kv)
      ultimately show ?thesis using Obj.IH [of kv v st] that(2) by simp
    qed
    from run_members [of ms "\<lambda>kv. toks (snd kv)" OStart undefined st, OF el False]
    obtain ys where
      "\<forall>ts. run (Open (OStart # st))
               (join [Comma] (map (\<lambda>kv. Lit (Str (fst kv)) # Colon # toks (snd kv)) ms) @ ts)
            = run (Open (ONext ys # st)) ts"
      by auto
    with Obj(2) show ?thesis by (intro exI [of _ "Obj ys"]) (simp add: ms_def)
  qed
qed (auto simp: literal_deliver)

lemma parse_stringify:
  "v \<noteq> Undefined \<Longrightarrow> \<exists>text v'. JSON_stringify v indent = Some text \<and> JSON_parse text = Some v'"
proof -
  assume "v \<noteq> Undefined"
  from run_toks [of "[]" v] obtain v' where
    r: "\<forall>ts. run (Open []) (toks v @ ts) = run (deliver v' []) ts" by auto
  have "tokenize (serialize (indent \<noteq> 0) 0 v @ []) = map_option ((@) (toks v)) (tokenize [])"
    by (rule lex_serialize) simp
  then have "JSON_parse (serialize (indent \<noteq> 0) 0 v) = Some v'"
    using r [rule_format, of "[]"] by (simp add: JSON_parse_def)
  with \<open>v \<noteq> Undefined\<close> show ?thesis by (simp add: JSON_stringify_def)
qed

section \<open>Properties of the path functions and of \<open>save\<close>\<close>

lemma split_dot_ne: "split_dot p \<noteq> []"
  by (induction p) (auto split: list.splits)

lemma split_dot_snoc: "butlast (split_dot p) @ [last (split_dot p)] = split_dot p"
  by (simp add: split_dot_ne)

lemma getNestedValue_snoc:
  "getNestedValue d p = foldl descend d (butlast (split_dot p) @ [last (split_dot p)])"
  by (simp add: getNestedValue_def split_dot_ne)

lemma descend_Undefined: "foldl descend Undefined ks = Undefined"
  by (induction ks) (simp_all add: descend_def)

lemma set_in_primitive: "\<not> isObj c \<Longrightarrow> \<not> isArray c \<Longrightarrow> \<exists>e. set_in c ks k v = Inl e"
  by (cases ks; cases c) auto

lemma put_slot_nth: "slot (put_slot xs i v ! i) = v \<and> i < length (put_slot xs i v)"
  by (simp add: put_slot_def nth_append)

lemma put_prop_read:
  "put_prop d k v = Inr d' \<Longrightarrow> own_prop d' k = v \<and> truthy d' \<and> (isObj d \<longrightarrow> isObj d')"
  by (cases d) (auto simp: put_slot_nth update_conv' split: option.splits)

lemma put_prop_present:
  "put_prop d k v = Inr d' \<Longrightarrow> has_prop d' k = Inr True"
  by (cases d) (auto simp: put_slot_nth update_conv' put_slot_def nth_append split: option.splits)

lemma subst_read:
  "has_prop d k = Inr True \<Longrightarrow> (isObj (own_prop d k) \<or> isArray (own_prop d k)) \<Longrightarrow>
     own_prop (subst d k c) k = c \<and> truthy (subst d k c) \<and> (isObj d \<longrightarrow> isObj (subst d k c))"
  by (cases d) (auto simp: update_conv' split: option.splits if_splits)

lemma subst_kind: "isObj (subst d k c) = isObj d \<and> isArray (subst d k c) = isArray d"
  by (cases d) (auto split: option.splits)

lemma has_prop_kind: "has_prop d k = Inr b \<Longrightarrow> isObj d \<or> isArray d"
  by (cases d) auto

lemma put_prop_kind: "put_prop d k v = Inr d' \<Longrightarrow> isObj d' = isObj d \<and> isArray d' = isArray d"
  by (cases d) (auto split: option.splits)

lemma set_in_kind:
  "set_in d ks k v = Inr d' \<Longrightarrow> isObj d' = isObj d \<and> isArray d' = isArray d \<and> (isObj d \<or> isArray d)"
proof (cases ks)
  case Nil
  assume "set_in d ks k v = Inr d'"
  with Nil show ?thesis using put_prop_kind [of d k v d'] by (cases d) auto
next
  case (Cons key ks')
  assume "set_in d ks k v = Inr d'"
  with Cons show ?thesis
    by (auto split: sum.splits if_splits simp: subst_kind dest: has_prop_kind put_prop_kind)
qed

lemma descend_snoc: "foldl descend d (ks @ [k]) = descend (foldl descend d ks) k"
  by simp

lemma set_in_get:
  "set_in d ks k v = Inr d' \<Longrightarrow> foldl descend d' (ks @ [k]) = v \<and> (isObj d \<longrightarrow> isObj d')"
proof (induction ks arbitrary: d d')
  case Nil
  then show ?case using put_prop_read [of d k v d'] by (auto simp: descend_def)
next
  case (Cons key ks)
  from Cons.prems obtain present cur child where
    hp: "has_prop d key = Inr present"
    and cur: "(if present then Inr d else put_prop d key (Obj [])) = Inr cur"
    and ch: "set_in (own_prop cur key) ks k v = Inr child"
    and d': "d' = subst cur key child"
    by (auto split: sum.splits)
  have pres: "has_prop cur key = Inr True" and ob: "isObj d \<longrightarrow> isObj cur"
    using hp cur by (auto split: if_splits dest: put_prop_present put_prop_read)
  have ref: "isObj (own_prop cur key) \<or> isArray (own_prop cur key)"
    using set_in_primitive [of "own_prop cur key" ks k v] ch by auto
  have ref': "child \<noteq> Undefined"
    using set_in_kind [OF ch] by auto
  from subst_read [OF pres ref, of child] d' ref'
  have "descend d' key = child" "isObj cur \<longrightarrow> isObj d'" by (auto simp: descend_def)
  with Cons.IH [OF ch] ob show ?case by simp
qed

lemma stringify_valid:
  "data s \<noteq> Undefined \<Longrightarrow> \<exists>bytes. stringifyData s = Some bytes \<and> validateData bytes = Inr ()"
  using parse_stringify [of "data s" "if readable s then 2 else 0"]
  by (auto simp: stringifyData_def validateData_def)

lemma save_with_fields:
  "data (snd (save_with w s)) = data s \<and> readable (snd (save_with w s)) = readable s
     \<and> noBlankData (snd (save_with w s)) = noBlankData s"
  by (simp add: save_with_def createBackup_def stringifyData_def Let_def split: option.splits sum.splits)

lemma save_fields:
  "data (snd (save s)) = data s \<and> readable (snd (save s)) = readable s
     \<and> noBlankData (snd (save s)) = noBlankData s"
  by (simp add: save_def save_with_fields)

lemma save_ok:
  assumes "data s \<noteq> Undefined"
  shows "\<exists>text. stringifyData s = Some text \<and> JSON_parse text \<noteq> None
           \<and> save s = (Inr (), s\<lparr>disk := (disk s)(TempPath := None, FilePath \<mapsto> text, BackupPath \<mapsto> text)\<rparr>)"
proof -
  from stringify_valid [OF assms] obtain bytes where
    t: "stringifyData s = Some bytes" "validateData bytes = Inr ()" by auto
  have "save s = (Inr (), s\<lparr>disk := (disk s)(TempPath := None, FilePath \<mapsto> bytes, BackupPath \<mapsto> bytes)\<rparr>)"
    using t by (simp add: save_def save_with_def createBackup_def stringifyData_def Let_def fun_upd_twist)
  moreover have "JSON_parse bytes \<noteq> None"
    using t(2) by (auto simp: validateData_def split: option.splits)
  ultimately show ?thesis using t(1) by blast
qed

lemma save_returns: "data s \<noteq> Undefined \<Longrightarrow> fst (save s) = Inr ()"
  using save_ok [of s] by auto



lemma slot_ref:
  "isObj (slot x) \<Longrightarrow> \<exists>y. x = Some y"
  "isArray (slot x) \<Longrightarrow> \<exists>y. x = Some y"
  by (cases x; simp)+

lemma set_in_existing:
  "isObj (foldl descend d (ks @ [k])) \<or> isArray (foldl descend d (ks @ [k]))
     \<Longrightarrow> \<exists>d'. set_in d ks k v = Inr d'"
proof (induction ks arbitrary: d)
  case Nil
  then show ?case
    by (cases d) (auto simp: descend_def split: option.splits if_splits dest: slot_ref)
next
  case (Cons key ks)
  have c: "descend d key \<noteq> Undefined"
    using Cons.prems by (auto simp: descend_Undefined simp del: foldl_append)
  then have t: "truthy d" and o: "descend d key = own_prop d key"
    by (auto simp: descend_def split: if_splits)
  from Cons.IH [of "own_prop d key"] Cons.prems o obtain child where
    ch: "set_in (own_prop d key) ks k v = Inr child" by auto
  from set_in_kind [OF ch] have "isObj (own_prop d key) \<or> isArray (own_prop d key)" by simp
  then have "has_prop d key = Inr True"
    by (cases d) (auto split: option.splits if_splits dest: slot_ref)
  with ch show ?case by simp
qed

lemma set_db_data:
  "setNestedValue (data s) P V = Inr d \<Longrightarrow> data (snd (set_db s P V)) = d"
  using save_fields [of "s\<lparr>data := d\<rparr>"]
  by (auto simp: set_db_def split: prod.splits sum.splits)

lemma set_db_returns:
  assumes "setNestedValue (data s) P V = Inr d"
  shows "fst (set_db s P V) = Inr V"
proof -
  from assms have "isObj d \<or> isArray d"
    using set_in_kind [of "data s" _ _ V d] by (auto simp: setNestedValue_def Let_def)
  then have "d \<noteq> Undefined" by auto
  then have "fst (save (s\<lparr>data := d\<rparr>)) = Inr ()" by (simp add: save_returns)
  with assms show ?thesis by (auto simp: set_db_def split: prod.splits sum.splits)
qed

lemma set_db_get:
  assumes "setNestedValue (data s) P V = Inr d"
  shows "get (snd (set_db s P V)) P = V"
  using set_in_get [of "data s" "butlast (split_dot P)" "last (split_dot P)" V d] assms
  by (simp add: get_def fetch_def getNestedValue_snoc set_db_data [OF assms] setNestedValue_def Let_def
           del: foldl_append)

subsection \<open>What \<open>JSON_parse\<close> returns is never \<open>undefined\<close>\<close>










subsection \<open>Loading\<close>

lemma JSON_parse_empty: "JSON_parse [] = None"
  by (simp add: JSON_parse_def)

lemma adopt_valid:
  "JSON_parse bytes = Some v \<Longrightarrow> adopt bytes s = (Inr (), s\<lparr>data := v\<rparr>)"
  by (auto simp: adopt_def validateData_def parseData_def JSON_parse_empty)

lemma adopt_invalid:
  "JSON_parse bytes = None \<Longrightarrow> adopt bytes s = (Inl InvalidJSON, s)"
  by (simp add: adopt_def validateData_def)



subsection \<open>The root stays an object\<close>









subsection \<open>\<open>splice\<close> with a delete count of one\<close>

lemma splice1_cases:
  "(1 \<le> n \<and> n \<le> int (length xs) \<longrightarrow> splice1 xs (n - 1) = take (nat (n - 1)) xs @ drop (nat n) xs)
   \<and> (int (length xs) < n \<longrightarrow> splice1 xs (n - 1) = xs)
   \<and> (n \<le> 0 \<longrightarrow> splice1 xs (n - 1) =
         take (nat (max (int (length xs) + n - 1) 0)) xs
           @ drop (Suc (nat (max (int (length xs) + n - 1) 0))) xs)"
proof (intro conjI impI)
  assume "1 \<le> n \<and> n \<le> int (length xs)"
  then show "splice1 xs (n - 1) = take (nat (n - 1)) xs @ drop (nat n) xs"
    by (simp add: splice1_def Let_def min_def nat_add_distrib)
next
  assume "int (length xs) < n"
  then show "splice1 xs (n - 1) = xs"
    by (auto simp: splice1_def Let_def min_def)
next
  assume n: "n \<le> 0"
  show "splice1 xs (n - 1) =
         take (nat (max (int (length xs) + n - 1) 0)) xs
           @ drop (Suc (nat (max (int (length xs) + n - 1) 0))) xs"
  proof (cases "xs = []")
    case True
    then show ?thesis by (simp add: splice1_def Let_def)
  next
    case False
    then have "0 < int (length xs)" by simp
    with n have "min 1 (int (length xs) - max (int (length xs) + (n - 1)) 0) = 1"
      by (cases xs) (auto simp: min_def max_def)
    moreover have "nat (max (int (length xs) + (n - 1)) 0 + 1) = Suc (nat (max (int (length xs) + (n - 1)) 0))"
      by (simp add: max_def nat_add_distrib)
    ultimately show ?thesis using n
      by (simp add: splice1_def Let_def add_diff_eq)
  qed
qed

subsection \<open>Evaluation\<close>

lemmas eval_defs = set_db_def delete_db_def has_def get_def fetch_def setNestedValue_def
  getNestedValue_def deleteNestedValue_def descend_def save_def save_with_def createBackup_def
  stringifyData_def validateData_def parseData_def adopt_def load_try_def load_catch_def
  loadDatabase_def initializeDatabase_def new_LumeDB_def deleteAll_def
  get_or_empty_def store_array_def push_def unpush_def delByPriority_def setByPriority_def
  splice1_def put_slot_def
  JSON_stringify_def JSON_parse_def nl_def quote_def escape_def show_int_def property_order_def
  array_index_def is_digit_def digit_char_def is_ws_def dec_val_def digit_val_def Let_def

lemma replicate_2: "replicate 2 c = [c, c]"
  by (simp add: numeral_2_eq_2)

lemma parse_backup_x1: "JSON_parse ''{\"x\":1}'' = Some (Obj [(''x'', Num 1)])"
  by (simp add: eval_defs)

section \<open>The claims\<close>




text \<open>
  C2 (atomic save). For every store, if the text that reaches the temporary file does
  not read back as valid JSON, then \<open>save\<close> throws \<open>Invalid JSON format\<close> and the
  main file is what it was before; only the temporary file has been written.
\<close>

theorem save_failed_validation:
  assumes "stringifyData s = Some bytes" and "JSON_parse (written bytes) = None"
  shows "save_with written s = (Inl InvalidJSON, s\<lparr>disk := (disk s)(TempPath \<mapsto> written bytes)\<rparr>)
         \<and> disk (snd (save_with written s)) FilePath = disk s FilePath"
  using assms by (simp add: save_with_def validateData_def Let_def)

text \<open>
  Witness for C2: a write that keeps the first three characters only.
\<close>

theorem save_failed_validation_witness:
  "save_with (take 3) \<lparr>data = Obj [(''k'', Num 2)], readable = False, noBlankData = False,
                         disk = [FilePath \<mapsto> ''old'']\<rparr>
     = (Inl InvalidJSON,
        \<lparr>data = Obj [(''k'', Num 2)], readable = False, noBlankData = False,
         disk = [FilePath \<mapsto> ''old'', TempPath \<mapsto> [CHR ''{'', CHR 0x22, CHR ''k'']]\<rparr>)
   \<and> disk (snd (save_with (take 3) \<lparr>data = Obj [(''k'', Num 2)], readable = False, noBlankData = False,
                         disk = [FilePath \<mapsto> ''old'']\<rparr>)) FilePath = Some ''old''"
  using save_failed_validation [of "\<lparr>data = Obj [(''k'', Num 2)], readable = False, noBlankData = False,
                         disk = [FilePath \<mapsto> ''old'']\<rparr>" "''{\"k\":2}''" "take 3"]
  by (simp add: eval_defs)

text \<open>
  C3 (pruning). With \<open>noBlankData\<close> enabled, on an empty document, \<open>set("a.b.c", 1)\<close>
  followed by \<open>delete("a.b.c")\<close> should leave \<open>has("a")\<close> false. The code leaves
  \<open>has("a")\<close> true: the clean-up loop slices \<open>keys\<close> after \<open>keys.reverse()\<close> has
  reversed it in place, looks for the parent of \<open>b\<close> under the root key \<open>b\<close>, finds
  nothing there, and then finds \<open>a\<close> still holding \<open>{b: {}}\<close>.
\<close>

theorem pruning_keeps_ancestor:
  "has (snd (delete_db (snd (set_db \<lparr>data = Obj [], readable = False, noBlankData = True, disk = Map.empty\<rparr>
        ''a.b.c'' (Num 1))) ''a.b.c'')) ''a''"
  by (simp add: eval_defs)

text \<open>
  Both calls return normally, and the document that is left is \<open>{a: {b: {}}}\<close>.
\<close>

theorem pruning_result:
  "data (snd (delete_db (snd (set_db \<lparr>data = Obj [], readable = False, noBlankData = True, disk = Map.empty\<rparr>
        ''a.b.c'' (Num 1))) ''a.b.c'')) = Obj [(''a'', Obj [(''b'', Obj [])])]
   \<and> fst (delete_db (snd (set_db \<lparr>data = Obj [], readable = False, noBlankData = True, disk = Map.empty\<rparr>
        ''a.b.c'' (Num 1))) ''a.b.c'') = Inr True
   \<and> fst (set_db \<lparr>data = Obj [], readable = False, noBlankData = True, disk = Map.empty\<rparr>
        ''a.b.c'' (Num 1)) = Inr (Num 1)"
  by (simp add: eval_defs)

text \<open>
  With a single ancestor the loop does what the comment in the source says.
\<close>

lemma pruning_depth2:
  "\<not> has (snd (delete_db (snd (set_db \<lparr>data = Obj [], readable = False, noBlankData = True, disk = Map.empty\<rparr>
        ''a.b'' (Num 1))) ''a.b'')) ''a''"
  by (simp add: eval_defs)




text \<open>
  C5 (type mismatch). For every value that exists at a path and is not an array, the
  falsy scalars \<open>0\<close>, \<open>false\<close>, the empty string and \<open>null\<close> included, each array
  operation should throw \<open>Target is not an array\<close> and leave the document alone. The
  code does not: \<open>this.get(key) || []\<close> takes the empty array in place of a falsy value,
  the guard \<open>Array.isArray\<close> passes, and the operation returns an array and stores it
  over the value.
\<close>

theorem array_ops_overwrite_falsy:
  "has \<lparr>data = Obj [(''z'', Num 0), (''f'', Bool False), (''e'', Str []), (''n'', Null)],
        readable = False, noBlankData = False, disk = Map.empty\<rparr> ''z''
   \<and> has \<lparr>data = Obj [(''z'', Num 0), (''f'', Bool False), (''e'', Str []), (''n'', Null)],
        readable = False, noBlankData = False, disk = Map.empty\<rparr> ''f''
   \<and> has \<lparr>data = Obj [(''z'', Num 0), (''f'', Bool False), (''e'', Str []), (''n'', Null)],
        readable = False, noBlankData = False, disk = Map.empty\<rparr> ''e''
   \<and> has \<lparr>data = Obj [(''z'', Num 0), (''f'', Bool False), (''e'', Str []), (''n'', Null)],
        readable = False, noBlankData = False, disk = Map.empty\<rparr> ''n''
   \<and> fst (push \<lparr>data = Obj [(''z'', Num 0), (''f'', Bool False), (''e'', Str []), (''n'', Null)],
        readable = False, noBlankData = False, disk = Map.empty\<rparr> ''z'' (Num 1))
       = Inr (Arr [Some (Num 1)])
   \<and> data (snd (push \<lparr>data = Obj [(''z'', Num 0), (''f'', Bool False), (''e'', Str []), (''n'', Null)],
        readable = False, noBlankData = False, disk = Map.empty\<rparr> ''z'' (Num 1)))
       = Obj [(''z'', Arr [Some (Num 1)]), (''f'', Bool False), (''e'', Str []), (''n'', Null)]
   \<and> fst (unpush (=) \<lparr>data = Obj [(''z'', Num 0), (''f'', Bool False), (''e'', Str []), (''n'', Null)],
        readable = False, noBlankData = False, disk = Map.empty\<rparr> ''f'' (Num 1))
       = Inr (Arr [])
   \<and> data (snd (unpush (=) \<lparr>data = Obj [(''z'', Num 0), (''f'', Bool False), (''e'', Str []), (''n'', Null)],
        readable = False, noBlankData = False, disk = Map.empty\<rparr> ''f'' (Num 1)))
       = Obj [(''z'', Num 0), (''f'', Arr []), (''e'', Str []), (''n'', Null)]
   \<and> fst (setByPriority \<lparr>data = Obj [(''z'', Num 0), (''f'', Bool False), (''e'', Str []), (''n'', Null)],
        readable = False, noBlankData = False, disk = Map.empty\<rparr> ''e'' (Num 1) 1)
       = Inr (Arr [Some (Num 1)])
   \<and> data (snd (setByPriority \<lparr>data = Obj [(''z'', Num 0), (''f'', Bool False), (''e'', Str []), (''n'', Null)],
        readable = False, noBlankData = False, disk = Map.empty\<rparr> ''e'' (Num 1) 1))
       = Obj [(''z'', Num 0), (''f'', Bool False), (''e'', Arr [Some (Num 1)]), (''n'', Null)]
   \<and> fst (delByPriority \<lparr>data = Obj [(''z'', Num 0), (''f'', Bool False), (''e'', Str []), (''n'', Null)],
        readable = False, noBlankData = False, disk = Map.empty\<rparr> ''n'' 1)
       = Inr (Arr [])
   \<and> data (snd (delByPriority \<lparr>data = Obj [(''z'', Num 0), (''f'', Bool False), (''e'', Str []), (''n'', Null)],
        readable = False, noBlankData = False, disk = Map.empty\<rparr> ''n'' 1))
       = Obj [(''z'', Num 0), (''f'', Bool False), (''e'', Str []), (''n'', Arr [])]"
  by (simp add: eval_defs)

text \<open>
  For a truthy value that is not an array (an object, a non-zero number, \<open>true\<close>, a
  non-empty string) the guard does what the claim says: each of the four operations
  throws \<open>Target is not an array\<close> and leaves the store as it was.
\<close>

lemma array_ops_type_mismatch:
  assumes "get s P = W" and "truthy W" and "\<not> isArray W"
  shows "push s P v = (Inl NotAnArray, s) \<and> unpush isEqual s P v = (Inl NotAnArray, s)
         \<and> setByPriority s P v n = (Inl NotAnArray, s) \<and> delByPriority s P n = (Inl NotAnArray, s)"
  using assms
  by (cases W) (simp_all add: push_def unpush_def setByPriority_def delByPriority_def get_or_empty_def)

lemma array_ops_type_mismatch_example:
  "push \<lparr>data = Obj [(''a'', Str ''x'')], readable = False, noBlankData = False, disk = Map.empty\<rparr> ''a'' (Num 1)
     = (Inl NotAnArray, \<lparr>data = Obj [(''a'', Str ''x'')], readable = False, noBlankData = False, disk = Map.empty\<rparr>)
   \<and> unpush (=) \<lparr>data = Obj [(''a'', Str ''x'')], readable = False, noBlankData = False, disk = Map.empty\<rparr> ''a'' (Num 1)
     = (Inl NotAnArray, \<lparr>data = Obj [(''a'', Str ''x'')], readable = False, noBlankData = False, disk = Map.empty\<rparr>)
   \<and> setByPriority \<lparr>data = Obj [(''a'', Str ''x'')], readable = False, noBlankData = False, disk = Map.empty\<rparr> ''a'' (Num 1) 1
     = (Inl NotAnArray, \<lparr>data = Obj [(''a'', Str ''x'')], readable = False, noBlankData = False, disk = Map.empty\<rparr>)
   \<and> delByPriority \<lparr>data = Obj [(''a'', Str ''x'')], readable = False, noBlankData = False, disk = Map.empty\<rparr> ''a'' 1
     = (Inl NotAnArray, \<lparr>data = Obj [(''a'', Str ''x'')], readable = False, noBlankData = False, disk = Map.empty\<rparr>)"
  by (rule array_ops_type_mismatch [where W = "Str ''x''"]) (simp_all add: eval_defs)

text \<open>
  C6 (backup recovery). When the main file is not valid JSON and the backup file is
  \<open>{"x":1}\<close>, constructing the store returns normally, \<open>get("x")\<close> is \<open>1\<close>, and the
  main file is rewritten: it holds the same text as the backup file afterwards, that
  text reads back as the document of the backup, and without pretty-printing it is
  \<open>{"x":1}\<close> itself.
\<close>

theorem backup_recovery:
  assumes "JSON_parse m = None"
  shows "\<exists>s' bytes. new_LumeDB r nb (fs(FilePath \<mapsto> m, BackupPath \<mapsto> ''{\"x\":1}'')) = (Inr (), s')
           \<and> get s' ''x'' = Num 1
           \<and> disk s' FilePath = Some bytes \<and> disk s' BackupPath = Some bytes
           \<and> JSON_parse bytes = Some (Obj [(''x'', Num 1)])
           \<and> JSON_parse ''{\"x\":1}'' = Some (Obj [(''x'', Num 1)])
           \<and> (\<not> r \<longrightarrow> bytes = ''{\"x\":1}'')"
proof (cases r)
  case True
  with assms parse_backup_x1 show ?thesis
    by (simp add: new_LumeDB_def initializeDatabase_def loadDatabase_def load_try_def load_catch_def
          adopt_invalid adopt_valid)
       (simp add: eval_defs replicate_2)
next
  case False
  with assms parse_backup_x1 show ?thesis
    by (simp add: new_LumeDB_def initializeDatabase_def loadDatabase_def load_try_def load_catch_def
          adopt_invalid adopt_valid)
       (simp add: eval_defs replicate_2)
qed

text \<open>
  Witness for C6: a main file that stops after \<open>{broken\<close>.
\<close>

theorem backup_recovery_witness:
  "\<exists>s' bytes. new_LumeDB False False [FilePath \<mapsto> ''{broken'', BackupPath \<mapsto> ''{\"x\":1}''] = (Inr (), s')
           \<and> get s' ''x'' = Num 1
           \<and> disk s' FilePath = Some bytes \<and> disk s' BackupPath = Some bytes
           \<and> JSON_parse bytes = Some (Obj [(''x'', Num 1)])
           \<and> bytes = ''{\"x\":1}''"
proof -
  have "JSON_parse ''{broken'' = None" by (simp add: eval_defs)
  from backup_recovery [OF this, of False False Map.empty] show ?thesis by simp
qed




text \<open>
  C8 (\<open>delByPriority\<close>), as amended. For every array \<open>xs\<close> stored at \<open>P\<close> and every
  integer \<open>n\<close>, \<open>delByPriority(P, n)\<close> returns and stores \<open>xs.splice(n - 1, 1)\<close>: \<open>xs\<close>
  without its element at the 1-based position \<open>n\<close> when \<open>1 \<le> n \<le> length\<close>; \<open>xs\<close>
  unchanged when \<open>n > length\<close>; and, as \<open>splice\<close> counts a negative start from the
  end, when \<open>n \<le> 0\<close> the array without its element at the 0-based index
  \<open>max (length + n - 1) 0\<close> (nothing is removed from an empty array).
\<close>

theorem delByPriority_removes:
  assumes "get s P = Arr xs"
  shows "fst (delByPriority s P n) = Inr (Arr (splice1 xs (n - 1)))
       \<and> get (snd (delByPriority s P n)) P = Arr (splice1 xs (n - 1))
       \<and> (1 \<le> n \<and> n \<le> int (length xs) \<longrightarrow>
            splice1 xs (n - 1) = take (nat (n - 1)) xs @ drop (nat n) xs)
       \<and> (int (length xs) < n \<longrightarrow> splice1 xs (n - 1) = xs)
       \<and> (n \<le> 0 \<longrightarrow> splice1 xs (n - 1) =
            take (nat (max (int (length xs) + n - 1) 0)) xs
              @ drop (Suc (nat (max (int (length xs) + n - 1) 0))) xs)"
proof -
  let ?ys = "Arr (splice1 xs (n - 1))"
  from assms have "isArray (foldl descend (data s) (butlast (split_dot P) @ [last (split_dot P)]))"
    by (simp add: get_def fetch_def getNestedValue_snoc del: foldl_append)
  then obtain d where d: "setNestedValue (data s) P ?ys = Inr d"
    using set_in_existing [of "data s" "butlast (split_dot P)" "last (split_dot P)" ?ys]
    by (auto simp: setNestedValue_def Let_def simp del: foldl_append)
  have "delByPriority s P n = (Inr ?ys, snd (set_db s P ?ys))"
    using assms set_db_returns [OF d]
    by (cases "set_db s P ?ys")
       (auto simp: delByPriority_def get_or_empty_def store_array_def split: sum.splits)
  with set_db_get [OF d] show ?thesis using splice1_cases [of n xs] by simp
qed

text \<open>
  Witness for C8: positions 2, 4 and -1 of a three-element array.
\<close>

theorem delByPriority_removes_witness:
  "fst (delByPriority \<lparr>data = Obj [(''a'', Arr [Some (Num 1), Some (Num 2), Some (Num 3)])],
         readable = False, noBlankData = False, disk = Map.empty\<rparr> ''a'' 2)
       = Inr (Arr [Some (Num 1), Some (Num 3)])
   \<and> get (snd (delByPriority \<lparr>data = Obj [(''a'', Arr [Some (Num 1), Some (Num 2), Some (Num 3)])],
         readable = False, noBlankData = False, disk = Map.empty\<rparr> ''a'' 2)) ''a''
       = Arr [Some (Num 1), Some (Num 3)]
   \<and> fst (delByPriority \<lparr>data = Obj [(''a'', Arr [Some (Num 1), Some (Num 2), Some (Num 3)])],
         readable = False, noBlankData = False, disk = Map.empty\<rparr> ''a'' 4)
       = Inr (Arr [Some (Num 1), Some (Num 2), Some (Num 3)])
   \<and> fst (delByPriority \<lparr>data = Obj [(''a'', Arr [Some (Num 1), Some (Num 2), Some (Num 3)])],
         readable = False, noBlankData = False, disk = Map.empty\<rparr> ''a'' (- 1))
       = Inr (Arr [Some (Num 1), Some (Num 3)])"
proof -
  let ?s = "\<lparr>data = Obj [(''a'', Arr [Some (Num 1), Some (Num 2), Some (Num 3)])],
         readable = False, noBlankData = False, disk = Map.empty\<rparr>"
  have g: "get ?s ''a'' = Arr [Some (Num 1), Some (Num 2), Some (Num 3)]"
    by (simp add: eval_defs)
  from delByPriority_removes [OF g, of 2] delByPriority_removes [OF g, of 4]
       delByPriority_removes [OF g, of "- 1"]
  show ?thesis by (simp add: eval_nat_numeral)
qed

text \<open>
  Counterexample to C8 as stated: priority \<open>0\<close> is out of range, yet
  \<open>delByPriority("a", 0)\<close> removes the last element of \<open>[1, 2, 3]\<close>.
\<close>

theorem delByPriority_counterexample:
  "get \<lparr>data = Obj [(''a'', Arr [Some (Num 1), Some (Num 2), Some (Num 3)])], readable = False,
         noBlankData = False, disk = Map.empty\<rparr> ''a'' = Arr [Some (Num 1), Some (Num 2), Some (Num 3)]
   \<and> fst (delByPriority \<lparr>data = Obj [(''a'', Arr [Some (Num 1), Some (Num 2), Some (Num 3)])],
         readable = False, noBlankData = False, disk = Map.empty\<rparr> ''a'' 0)
       = Inr (Arr [Some (Num 1), Some (Num 2)])
   \<and> get (snd (delByPriority \<lparr>data = Obj [(''a'', Arr [Some (Num 1), Some (Num 2), Some (Num 3)])],
         readable = False, noBlankData = False, disk = Map.empty\<rparr> ''a'' 0)) ''a''
       = Arr [Some (Num 1), Some (Num 2)]"
  by (simp add: eval_defs)

text \<open>
  C9 (a scalar in the way), as amended. When the root is an object whose key \<open>a\<close>
  holds a value that is neither an object nor an array, \<open>set("a.b", v)\<close> throws a
  \<open>TypeError\<close> and leaves the store, document and files, as it was.
\<close>

theorem set_under_scalar:
  assumes "data s = Obj kvs" and "map_of kvs ''a'' = Some x" and "\<not> isObj x" and "\<not> isArray x"
  shows "set_db s ''a.b'' v = (Inl TypeError, s)"
proof -
  have "put_prop x ''b'' v = Inl TypeError" using assms(3,4) by (cases x) auto
  then show ?thesis using assms(1,2) by (simp add: set_db_def setNestedValue_def)
qed

text \<open>
  Witness for C9: \<open>a\<close> holds a string.
\<close>

theorem set_under_scalar_witness:
  "set_db \<lparr>data = Obj [(''a'', Str ''old'')], readable = False, noBlankData = False, disk = Map.empty\<rparr> ''a.b'' (Num 1)
     = (Inl TypeError, \<lparr>data = Obj [(''a'', Str ''old'')], readable = False, noBlankData = False, disk = Map.empty\<rparr>)"
  by (rule set_under_scalar [where kvs = "[(''a'', Str ''old'')]" and x = "Str ''old''"]) simp_all

text \<open>
  Counterexample to C9 as stated: on \<open>{a: 5}\<close>, \<open>set("a.b", 1)\<close> throws and \<open>a\<close> still
  holds \<open>5\<close>.
\<close>

theorem set_under_scalar_counterexample:
  "fst (set_db \<lparr>data = Obj [(''a'', Num 5)], readable = False, noBlankData = False, disk = Map.empty\<rparr>
         ''a.b'' (Num 1)) = Inl TypeError
   \<and> get (snd (set_db \<lparr>data = Obj [(''a'', Num 5)], readable = False, noBlankData = False, disk = Map.empty\<rparr>
         ''a.b'' (Num 1))) ''a'' = Num 5"
  by (simp add: eval_defs)

text \<open>
  C10. For every store and path, \<open>has\<close> is true exactly when \<open>get\<close> returns a value
  other than \<open>undefined\<close>; \<open>fetch\<close> and \<open>get\<close> agree, and all three are the one
  traversal \<open>getNestedValue\<close> of the document, which they only read.
\<close>

theorem has_iff_get:
  "has s P = (get s P \<noteq> Undefined) \<and> fetch s P = get s P
     \<and> get s P = getNestedValue (data s) P"
  by (simp add: has_def get_def fetch_def)

end
